theory Spec2Isabelle
  imports Main "HOL-Library.Word" "HOL-Library.Sublist"
begin

section \<open>Strings\<close>

text \<open>
  A JavaScript string is a sequence of UTF-16 code units. The regular expression of the
  script has no \<open>u\<close> flag, and \<open>replaceAll\<close> and \<open>includes\<close> compare code units, so
  the model works on code units throughout. \<open>js\<close> turns an ASCII literal of the source
  into its code units.
\<close>

type_synonym jsstring = "16 word list"

definition js :: "string \<Rightarrow> jsstring" where
  "js s = map (\<lambda>c. word_of_nat (of_char c)) s"

text \<open>
  \<open>!(v)\<close> on a value that is a string or \<open>null\<close>: \<open>null\<close>, \<open>undefined\<close> and the
  empty string are falsy.
\<close>

definition falsy :: "jsstring option \<Rightarrow> bool" where
  "falsy v \<longleftrightarrow> v = None \<or> v = Some []"

text \<open>\<open>String.prototype.includes\<close>: does \<open>pat\<close> occur in \<open>s\<close> as a contiguous run.\<close>

fun includes_str :: "'a list \<Rightarrow> 'a list \<Rightarrow> bool" where
  "includes_str [] pat = (pat = [])"
| "includes_str (c # cs) pat = (prefix pat (c # cs) \<or> includes_str cs pat)"

text \<open>
  \<open>String.prototype.replaceAll\<close> with a string pattern: the occurrences of \<open>pat\<close> are
  found from left to right, each search starting after the previous occurrence, and every
  one is replaced by \<open>rep\<close>. An empty pattern matches between all code units. The
  replacement is taken literally: a \<open>$\<close> in it would be read as a substitution pattern,
  and no emoji of the table below contains one (lemma \<open>emoji_no_dollar\<close>).
\<close>

fun replaceAll :: "'a list \<Rightarrow> 'a list \<Rightarrow> 'a list \<Rightarrow> 'a list" where
  "replaceAll [] pat rep = (if pat = [] then rep else [])"
| "replaceAll (c # cs) pat rep =
     (if pat = [] then rep @ c # replaceAll cs pat rep
      else if prefix pat (c # cs) then rep @ replaceAll (drop (length pat) (c # cs)) pat rep
      else c # replaceAll cs pat rep)"

section \<open>The regular expression \<open>/:[a-z$]+:/g\<close>\<close>

definition colon :: "16 word" where
  "colon = 0x3A"

definition dollar :: "16 word" where
  "dollar = 0x24"

text \<open>The character class \<open>[a-z$]\<close>.\<close>

definition is_tagchar :: "16 word \<Rightarrow> bool" where
  "is_tagchar c \<longleftrightarrow> (0x61 \<le> c \<and> c \<le> 0x7A) \<or> c = dollar"

text \<open>
  The strings the whole pattern matches: a colon, one or more characters of the class,
  a colon.
\<close>

definition is_tag :: "jsstring \<Rightarrow> bool" where
  "is_tag s \<longleftrightarrow>
     3 \<le> length s \<and> hd s = colon \<and> last s = colon \<and> list_all is_tagchar (butlast (tl s))"

text \<open>
  \<open>[...s.matchAll(/:[a-z$]+:/g)]\<close>: the matches in order. At a colon the greedy \<open>+\<close>
  takes the longest run of class characters; the match succeeds when the run is not empty
  and a colon follows it (giving a character back never helps, since the next one is then
  a class character and not a colon). After a match the search goes on behind its closing
  colon; after a failure, at the next position.
\<close>

function matchAll :: "jsstring \<Rightarrow> jsstring list" where
  "matchAll [] = []"
| "matchAll (c # cs) =
     (let run = takeWhile is_tagchar cs; rest = dropWhile is_tagchar cs
      in if c = colon \<and> run \<noteq> [] \<and> rest \<noteq> [] \<and> hd rest = colon
         then (c # run @ [colon]) # matchAll (tl rest)
         else matchAll cs)"
  by pat_completeness auto
termination
proof (relation "measure length")
  show "wf (measure length)" by simp
next
  fix c :: "16 word" and cs run rest
  assume "rest = dropWhile is_tagchar cs"
  then have "length (tl rest) \<le> length cs"
    using length_dropWhile_le [of is_tagchar cs] by simp
  then show "(tl rest, c # cs) \<in> measure length" by simp
next
  fix c :: "16 word" and cs :: jsstring
  show "(cs, c # cs) \<in> measure length" by simp
qed

section \<open>The tag table\<close>

record enrichment =
  emoji :: jsstring
  eventType :: "jsstring option"

definition titleEnrichmentsAndTypes :: "(jsstring \<times> enrichment) list" where
  "titleEnrichmentsAndTypes =
    [(js '':run:'', \<lparr>emoji = [0xD83C, 0xDFC3, 0x200D, 0x2642, 0xFE0F], eventType = Some (js ''RUN'')\<rparr>),
     (js '':bike:'', \<lparr>emoji = [0xD83D, 0xDEB4, 0x200D, 0x2642, 0xFE0F], eventType = Some (js ''BIKE'')\<rparr>),
     (js '':birthday:'', \<lparr>emoji = [0xD83C, 0xDF89], eventType = Some (js ''BIRTHDAY'')\<rparr>),
     (js '':birth:'', \<lparr>emoji = [0xD83C, 0xDF89], eventType = Some (js ''BIRTHDAY'')\<rparr>),
     (js '':compleanno:'', \<lparr>emoji = [0xD83C, 0xDF89], eventType = Some (js ''BIRTHDAY'')\<rparr>),
     (js '':comple:'', \<lparr>emoji = [0xD83C, 0xDF89], eventType = Some (js ''BIRTHDAY'')\<rparr>),
     (js '':dinner:'', \<lparr>emoji = [0xD83C, 0xDF57], eventType = Some (js ''DINNER'')\<rparr>),
     (js '':lunch:'', \<lparr>emoji = [0xD83C, 0xDF57], eventType = Some (js ''DINNER'')\<rparr>),
     (js '':cena:'', \<lparr>emoji = [0xD83C, 0xDF57], eventType = Some (js ''DINNER'')\<rparr>),
     (js '':pranzo:'', \<lparr>emoji = [0xD83C, 0xDF57], eventType = Some (js ''DINNER'')\<rparr>),
     (js '':hospital:'', \<lparr>emoji = [0xD83C, 0xDFE5], eventType = Some (js ''HEALTH'')\<rparr>),
     (js '':hosp:'', \<lparr>emoji = [0xD83C, 0xDFE5], eventType = Some (js ''HEALTH'')\<rparr>),
     (js '':ospedale:'', \<lparr>emoji = [0xD83C, 0xDFE5], eventType = Some (js ''HEALTH'')\<rparr>),
     (js '':osp:'', \<lparr>emoji = [0xD83C, 0xDFE5], eventType = Some (js ''HEALTH'')\<rparr>),
     (js '':workout:'', \<lparr>emoji = [0xD83D, 0xDCAA], eventType = Some (js ''GYM'')\<rparr>),
     (js '':gym:'', \<lparr>emoji = [0xD83D, 0xDCAA], eventType = Some (js ''GYM'')\<rparr>),
     (js '':muscle:'', \<lparr>emoji = [0xD83D, 0xDCAA], eventType = Some (js ''GYM'')\<rparr>),
     (js '':bicep:'', \<lparr>emoji = [0xD83D, 0xDCAA], eventType = Some (js ''GYM'')\<rparr>),
     (js '':biceps:'', \<lparr>emoji = [0xD83D, 0xDCAA], eventType = Some (js ''GYM'')\<rparr>),
     (js '':star:'', \<lparr>emoji = [0x2B50], eventType = None\<rparr>),
     (js '':check:'', \<lparr>emoji = [0x2705], eventType = None\<rparr>),
     (js '':ita:'', \<lparr>emoji = [0xD83C, 0xDDEE, 0xD83C, 0xDDF9], eventType = None\<rparr>),
     (js '':party:'', \<lparr>emoji = [0xD83C, 0xDF89], eventType = None\<rparr>),
     (js '':chicken:'', \<lparr>emoji = [0xD83C, 0xDF57], eventType = None\<rparr>),
     (js '':cross:'', \<lparr>emoji = [0x271D, 0xFE0F], eventType = None\<rparr>),
     (js '':death:'', \<lparr>emoji = [0x271D, 0xFE0F], eventType = None\<rparr>),
     (js '':$:'', \<lparr>emoji = [0xD83D, 0xDCB0], eventType = None\<rparr>),
     (js '':money:'', \<lparr>emoji = [0xD83D, 0xDCB0], eventType = None\<rparr>),
     (js '':dollar:'', \<lparr>emoji = [0xD83D, 0xDCB0], eventType = None\<rparr>)]"

text \<open>
  \<open>titleEnrichmentsAndTypes[token]\<close>: the token is a match array with one element, so
  the property key is the matched string. Every key of the literal is written once.
\<close>

definition lookup :: "jsstring \<Rightarrow> enrichment option" where
  "lookup token = map_of titleEnrichmentsAndTypes token"

section \<open>Events and the calendar services\<close>

text \<open>The members of \<open>CalendarApp.EventColor\<close>.\<close>

datatype EventColor =
  PALE_BLUE | PALE_GREEN | MAUVE | PALE_RED | YELLOW | ORANGE | CYAN | GRAY | BLUE | GREEN | RED

record CalendarEvent =
  eventId :: jsstring
  eventTitle :: jsstring
  eventDescription :: jsstring
  eventColor :: "EventColor option"

text \<open>
  The calls of the write service. Every function below returns the event as it has become
  and the writes it has made, in order.
\<close>

datatype writeCall = SetTitle jsstring | SetColor EventColor

definition setTitle :: "jsstring \<Rightarrow> CalendarEvent \<times> writeCall list \<Rightarrow> CalendarEvent \<times> writeCall list" where
  "setTitle s st = ((fst st)\<lparr>eventTitle := s\<rparr>, snd st @ [SetTitle s])"

definition setColor :: "EventColor \<Rightarrow> CalendarEvent \<times> writeCall list \<Rightarrow> CalendarEvent \<times> writeCall list" where
  "setColor c st = ((fst st)\<lparr>eventColor := Some c\<rparr>, snd st @ [SetColor c])"

text \<open>
  The script's own exceptions, the \<open>TypeError\<close> of a method call on \<open>null\<close>, and any
  failure \<open>'x\<close> of a calendar service, which the script never catches.
\<close>

datatype 'x error = NoEventFound | EventNull | EventTypeNull | TypeError | ServiceError 'x

record listItem =
  itemId :: jsstring

text \<open>
  The answer of \<open>Calendar.Events.list\<close>: \<open>items\<close> may be missing, and a slot of it may
  be \<open>null\<close>.
\<close>

record eventsList =
  items :: "listItem option list option"

text \<open>
  The options of the listing. \<open>updatedMin\<close> is kept as milliseconds since the epoch
  (the source sends its ISO rendering).
\<close>

record listOptions =
  updatedMin :: int
  maxResults :: nat
  orderBy :: jsstring
  singleEvents :: bool
  showDeleted :: bool
  fieldMask :: jsstring

text \<open>
  The two read services, as the script calls them. \<open>CalendarApp.getEventById\<close> answers
  \<open>null\<close> for an identifier it does not know.
\<close>

record 'x services =
  Calendar_Events_list :: "jsstring \<Rightarrow> listOptions \<Rightarrow> 'x + eventsList"
  CalendarApp_getEventById :: "jsstring \<Rightarrow> 'x + CalendarEvent option"

record triggerData =
  calendarId :: jsstring
  triggerUid :: jsstring
  authMode :: jsstring

section \<open>\<open>_updateEventTitleAndGetType\<close>\<close>

text \<open>
  The body of the \<open>forEach\<close> callback, on the pair of the two variables it assigns,
  \<open>newTitle\<close> and \<open>eventType\<close>.
\<close>

definition enrichStep :: "jsstring \<Rightarrow> jsstring \<times> jsstring option \<Rightarrow> jsstring \<times> jsstring option" where
  "enrichStep token acc =
     (case lookup token of
        None \<Rightarrow> acc
      | Some data \<Rightarrow>
          (replaceAll (fst acc) token (emoji data),
           if falsy (snd acc) then eventType data else snd acc))"

text \<open>The loop over the matches of the original title: the new title and the event type.\<close>

definition enrich :: "jsstring \<Rightarrow> jsstring \<times> jsstring option" where
  "enrich origTitle = fold enrichStep (matchAll origTitle) (origTitle, None)"

definition updateEventTitleAndGetType ::
  "CalendarEvent \<Rightarrow> jsstring option \<times> CalendarEvent \<times> writeCall list" where
  "updateEventTitleAndGetType event =
     (let origTitle = eventTitle event;
          newTitle = fst (enrich origTitle);
          evType = snd (enrich origTitle)
      in (evType, if newTitle \<noteq> origTitle then setTitle newTitle (event, []) else (event, [])))"

section \<open>\<open>_processEventByType\<close>\<close>

text \<open>
  The \<open>switch\<close> on \<open>eventType\<close>, which compares with \<open>===\<close>: the colour of an
  event type, \<open>None\<close> (the initial \<open>null\<close> of \<open>color\<close>) where no case matches.
\<close>

definition colorFor :: "jsstring option \<Rightarrow> EventColor option" where
  "colorFor evType =
     (if evType = Some (js ''RUN'') then Some GRAY
      else if evType = Some (js ''BIKE'') then Some GRAY
      else if evType = Some (js ''BIRTHDAY'') then Some YELLOW
      else if evType = Some (js ''DINNER'') then Some BLUE
      else if evType = Some (js ''HEALTH'') then Some RED
      else if evType = Some (js ''GYM'') then Some PALE_RED
      else None)"

text \<open>
  The two guards, then the switch, then \<open>setColor\<close> when a colour was found. A missing
  \<open>eventType\<close> takes the default \<open>null\<close> of the parameter.
\<close>

definition processEventByType ::
  "CalendarEvent option \<Rightarrow> jsstring option \<Rightarrow> 'x error + CalendarEvent \<times> writeCall list" where
  "processEventByType event evType =
     (case event of
        None \<Rightarrow> Inl EventNull
      | Some ev \<Rightarrow>
          if falsy evType then Inl EventTypeNull
          else (case colorFor evType of
                  None \<Rightarrow> Inr (ev, [])
                | Some c \<Rightarrow> Inr (setColor c (ev, []))))"

section \<open>\<open>_getLastEditedEvent\<close>\<close>

definition options :: "int \<Rightarrow> listOptions" where
  "options now =
     (let oneMinAgo = now - 60 * 1000
      in \<lparr>updatedMin = oneMinAgo, maxResults = 50, orderBy = js ''updated'',
          singleEvents = True, showDeleted = False, fieldMask = js ''items(id)''\<rparr>)"

text \<open>
  \<open>events.items[events.items.length-1]\<close> is \<open>undefined\<close> on an empty array, which the
  check after it treats like a \<open>null\<close> slot.
\<close>

definition lastItem :: "listItem option list \<Rightarrow> listItem option" where
  "lastItem its = (if its = [] then None else last its)"

definition getLastEditedEvent ::
  "'x services \<Rightarrow> int \<Rightarrow> jsstring \<Rightarrow> 'x error + CalendarEvent option" where
  "getLastEditedEvent svc now calId =
     (case Calendar_Events_list svc calId (options now) of
        Inl x \<Rightarrow> Inl (ServiceError x)
      | Inr events \<Rightarrow>
          (case items events of
             None \<Rightarrow> Inl NoEventFound
           | Some its \<Rightarrow>
               (case lastItem its of
                  None \<Rightarrow> Inl NoEventFound
                | Some event \<Rightarrow>
                    (case CalendarApp_getEventById svc (itemId event) of
                       Inl x \<Rightarrow> Inl (ServiceError x)
                     | Inr e \<Rightarrow> Inr e))))"

section \<open>\<open>onCalendarUpdate\<close>\<close>

text \<open>
  The handler: how the invocation ends, and the writes it has made. \<open>now\<close> is the clock
  reading that \<open>_getLastEditedEvent\<close> takes.
\<close>

definition onCalendarUpdate ::
  "'x services \<Rightarrow> int \<Rightarrow> triggerData \<Rightarrow> ('x error + unit) \<times> writeCall list" where
  "onCalendarUpdate svc now td =
     (case getLastEditedEvent svc now (calendarId td) of
        Inl NoEventFound \<Rightarrow> (Inr (), [])
      | Inl err \<Rightarrow> (Inl err, [])
      | Inr None \<Rightarrow> (Inl TypeError, [])
      | Inr (Some event) \<Rightarrow>
          if includes_str (eventDescription event) (js '':skip:'') then (Inr (), [])
          else
            (case updateEventTitleAndGetType event of
               (evType, event', w1) \<Rightarrow>
                 if \<not> falsy evType
                 then (case processEventByType (Some event') evType of
                         Inl err \<Rightarrow> (Inl err, w1)
                       | Inr (event'', w2) \<Rightarrow> (Inr (), w1 @ w2))
                 else (Inr (), w1)))"

section \<open>Notions used to state the properties\<close>

text \<open>The code units a match of the pattern is made of.\<close>

definition tagAlphabet :: "16 word \<Rightarrow> bool" where
  "tagAlphabet c \<longleftrightarrow> c = colon \<or> is_tagchar c"

text \<open>\<open>titleEnrichmentsAndTypes[token].eventType\<close>, \<open>None\<close> also when the token is no key.\<close>

definition categoryOf :: "jsstring \<Rightarrow> jsstring option" where
  "categoryOf token = (case lookup token of None \<Rightarrow> None | Some data \<Rightarrow> eventType data)"

text \<open>
  \<open>tagsReplaced s s'\<close>: \<open>s'\<close> is \<open>s\<close> with some occurrences of keys of the table
  replaced by their emoji, and every other code unit kept in place.
\<close>

inductive tagsReplaced :: "jsstring \<Rightarrow> jsstring \<Rightarrow> bool" where
  nothing: "tagsReplaced [] []"
| keep: "tagsReplaced s s' \<Longrightarrow> tagsReplaced (c # s) (c # s')"
| swap: "lookup t = Some data \<Longrightarrow> tagsReplaced s s' \<Longrightarrow> tagsReplaced (t @ s) (emoji data @ s')"

section \<open>Sample inputs\<close>

definition sampleEvent :: CalendarEvent where
  "sampleEvent = \<lparr>eventId = js ''e1'', eventTitle = js ''Team :dinner:'',
     eventDescription = js ''agenda ... :skip:'', eventColor = None\<rparr>"

definition morningEvent :: CalendarEvent where
  "morningEvent = \<lparr>eventId = js ''m1'', eventTitle = js ''Morning :run: :check:'',
     eventDescription = [], eventColor = None\<rparr>"

definition plainEvent :: CalendarEvent where
  "plainEvent = \<lparr>eventId = js ''p1'', eventTitle = js ''Call :bob: at 5'',
     eventDescription = [], eventColor = None\<rparr>"

definition sampleItems :: "listItem option list" where
  "sampleItems =
     [Some \<lparr>itemId = js ''a1''\<rparr>, Some \<lparr>itemId = js ''b1''\<rparr>, Some \<lparr>itemId = js ''e1''\<rparr>]"

text \<open>Services that list the given items and know the one event \<open>e1\<close>.\<close>

definition sampleServices :: "listItem option list option \<Rightarrow> unit services" where
  "sampleServices its =
     \<lparr>Calendar_Events_list = (\<lambda>calId opts. Inr \<lparr>items = its\<rparr>),
      CalendarApp_getEventById = (\<lambda>i. if i = js ''e1'' then Inr (Some sampleEvent) else Inr None)\<rparr>"

text \<open>Services that list and know the one event \<open>m1\<close>.\<close>

definition morningServices :: "unit services" where
  "morningServices =
     \<lparr>Calendar_Events_list = (\<lambda>calId opts. Inr \<lparr>items = Some [Some \<lparr>itemId = js ''m1''\<rparr>]\<rparr>),
      CalendarApp_getEventById = (\<lambda>i. if i = js ''m1'' then Inr (Some morningEvent) else Inr None)\<rparr>"

definition sampleTrigger :: triggerData where
  "sampleTrigger =
     \<lparr>calendarId = js ''pun@gmail.com'', triggerUid = js ''21985234'', authMode = js ''FULL''\<rparr>"

text \<open>Titles: without a match, with two tags, and with matches that share a colon.\<close>

definition plainTitle :: jsstring where
  "plainTitle = js ''5:30 :Run:''"

definition morningTitle :: jsstring where
  "morningTitle = js ''Morning :run: :check:''"

definition twoTypesTitle :: jsstring where
  "twoTypesTitle = js '':run: then :gym:''"

definition hiddenTitle :: jsstring where
  "hiddenTitle = js '':a:run:''"

definition revealedTitle :: jsstring where
  "revealedTitle = js '':x:star:y:run: :star:''"

definition brokenTitle :: jsstring where
  "brokenTitle = js '':gym: :run:gym:''"

section \<open>Basic facts\<close>

lemmas js_simps = js_def colon_def dollar_def is_tagchar_def

lemma includes_str_sublist: "includes_str s pat \<longleftrightarrow> sublist pat s"
  by (induction s) (simp_all add: sublist_Cons_right)

lemmas enrich_simps = enrich_def enrichStep_def lookup_def titleEnrichmentsAndTypes_def falsy_def

lemma fold_enrichStep_unknown:
  "\<forall>t \<in> set ts. lookup t = None \<Longrightarrow> fold enrichStep ts acc = acc"
  by (induction ts arbitrary: acc) (simp_all add: enrichStep_def)

lemma enrich_morning:
  "enrich (js ''Morning :run: :check:'') =
     (js ''Morning '' @ [0xD83C, 0xDFC3, 0x200D, 0x2642, 0xFE0F] @ js '' '' @ [0x2705],
      Some (js ''RUN''))"
  by (simp add: enrich_simps js_simps)

lemma matchAll_plain: "matchAll (js ''Call :bob: at 5'') = [js '':bob:'']"
  by (simp add: js_simps)

lemma lookup_bob: "lookup (js '':bob:'') = None"
  by (simp add: enrich_simps js_simps)

lemma sample_resolved:
  "getLastEditedEvent (sampleServices (Some sampleItems)) 0 (calendarId sampleTrigger)
     = Inr (Some sampleEvent)"
  by (simp add: getLastEditedEvent_def lastItem_def sampleServices_def sampleItems_def)

lemma sample_skip: "includes_str (eventDescription sampleEvent) (js '':skip:'')"
  by (simp add: sampleEvent_def js_def)

text \<open>
  The handler on the title \<open>Morning :run: :check:\<close> with an empty description: the
  title is rewritten, the event type is RUN, the colour is set to gray.
\<close>

lemma onCalendarUpdate_morning:
  "onCalendarUpdate morningServices 0 sampleTrigger =
     (Inr (),
      [SetTitle (js ''Morning '' @ [0xD83C, 0xDFC3, 0x200D, 0x2642, 0xFE0F] @ js '' '' @ [0x2705]),
       SetColor GRAY])"
proof -
  have "getLastEditedEvent morningServices 0 (calendarId sampleTrigger) = Inr (Some morningEvent)"
    by (simp add: getLastEditedEvent_def lastItem_def morningServices_def)
  moreover have "\<not> includes_str (eventDescription morningEvent) (js '':skip:'')"
    by (simp add: morningEvent_def js_def)
  moreover have "updateEventTitleAndGetType morningEvent =
      (Some (js ''RUN''),
       morningEvent\<lparr>eventTitle := js ''Morning '' @ [0xD83C, 0xDFC3, 0x200D, 0x2642, 0xFE0F] @ js '' '' @ [0x2705]\<rparr>,
       [SetTitle (js ''Morning '' @ [0xD83C, 0xDFC3, 0x200D, 0x2642, 0xFE0F] @ js '' '' @ [0x2705])])"
    by (simp add: updateEventTitleAndGetType_def Let_def morningEvent_def enrich_morning setTitle_def)
      (simp add: js_def)
  ultimately show ?thesis
    by (simp add: onCalendarUpdate_def processEventByType_def colorFor_def setColor_def falsy_def)
      (simp add: js_def)
qed

lemma onCalendarUpdate_NoEventFound:
  "getLastEditedEvent svc now (calendarId td) = Inl NoEventFound \<Longrightarrow>
     onCalendarUpdate svc now td = (Inr (), [])"
  by (simp add: onCalendarUpdate_def)

section \<open>The table and the matches\<close>

lemma table_emoji:
  "list_all (\<lambda>(k, d). emoji d \<noteq> [] \<and> list_all (\<lambda>c. \<not> tagAlphabet c) (emoji d)) titleEnrichmentsAndTypes"
  by (simp add: titleEnrichmentsAndTypes_def tagAlphabet_def js_simps)

lemma table_eventType:
  "list_all (\<lambda>(k, d). eventType d \<noteq> Some []) titleEnrichmentsAndTypes"
  by (simp add: titleEnrichmentsAndTypes_def js_def)

lemma table_keys: "list_all (\<lambda>(k, d). is_tag k) titleEnrichmentsAndTypes"
  by (simp add: titleEnrichmentsAndTypes_def is_tag_def js_simps)

lemma table_distinct: "distinct (map fst titleEnrichmentsAndTypes)"
  by (simp add: titleEnrichmentsAndTypes_def js_def)

lemma lookup_in_table: "lookup t = Some d \<Longrightarrow> (t, d) \<in> set titleEnrichmentsAndTypes"
  by (simp add: lookup_def map_of_SomeD)

lemma lookup_emoji:
  assumes "lookup t = Some d"
  shows "emoji d \<noteq> []" and "\<And>c. c \<in> set (emoji d) \<Longrightarrow> \<not> tagAlphabet c"
  using lookup_in_table [OF assms] table_emoji
  by (auto simp: list_all_iff)

lemma emoji_no_dollar: "lookup t = Some d \<Longrightarrow> dollar \<notin> set (emoji d)"
  using lookup_emoji(2) [of t d dollar] by (auto simp: tagAlphabet_def is_tagchar_def)

lemma lookup_eventType: "lookup t = Some d \<Longrightarrow> falsy (eventType d) \<longleftrightarrow> eventType d = None"
  using lookup_in_table [of t d] table_eventType
  by (auto simp: list_all_iff falsy_def)

lemma is_tag_iff:
  "is_tag s \<longleftrightarrow> (\<exists>w. s = colon # w @ [colon] \<and> w \<noteq> [] \<and> list_all is_tagchar w)"
proof
  assume a: "is_tag s"
  then have len: "3 \<le> length s" by (simp add: is_tag_def)
  then obtain c r where s: "s = c # r" by (cases s) auto
  with len have "r \<noteq> []" by auto
  then obtain w l where rw: "r = w @ [l]" by (metis rev_exhaust)
  from a s rw have "c = colon" "l = colon" "list_all is_tagchar w"
    by (simp_all add: is_tag_def)
  moreover from len s rw have "w \<noteq> []" by auto
  ultimately show "\<exists>w. s = colon # w @ [colon] \<and> w \<noteq> [] \<and> list_all is_tagchar w"
    using s rw by simp
next
  assume "\<exists>w. s = colon # w @ [colon] \<and> w \<noteq> [] \<and> list_all is_tagchar w"
  then obtain w where "s = colon # w @ [colon]" "w \<noteq> []" "list_all is_tagchar w" by blast
  then show "is_tag s" by (cases w) (simp_all add: is_tag_def)
qed

lemma is_tag_alphabet: "is_tag t \<Longrightarrow> t \<noteq> [] \<and> (\<forall>c \<in> set t. tagAlphabet c)"
  by (auto simp: is_tag_iff tagAlphabet_def list_all_iff)

lemma matchAll_tags: "t \<in> set (matchAll s) \<Longrightarrow> is_tag t \<and> sublist t s"
proof (induction s arbitrary: t rule: matchAll.induct)
  case 1
  then show ?case by simp
next
  case (2 c cs)
  let ?run = "takeWhile is_tagchar cs" and ?rest = "dropWhile is_tagchar cs"
  show ?case
  proof (cases "c = colon \<and> ?run \<noteq> [] \<and> ?rest \<noteq> [] \<and> hd ?rest = colon")
    case True
    then have rest: "?rest = colon # tl ?rest" by (cases ?rest) auto
    have cs: "cs = ?run @ colon # tl ?rest"
      using takeWhile_dropWhile_id [of is_tagchar cs] rest by metis
    have whole: "c # cs = (c # ?run @ [colon]) @ tl ?rest"
      using cs by simp
    from "2.prems" True have "t = c # ?run @ [colon] \<or> t \<in> set (matchAll (tl ?rest))"
      by (simp add: Let_def)
    then show ?thesis
    proof
      assume t: "t = c # ?run @ [colon]"
      have "list_all is_tagchar ?run" by (simp add: list_all_iff) (meson set_takeWhileD)
      with t True have "is_tag t" by (auto simp: is_tag_iff)
      moreover have "sublist t (c # cs)"
        using whole t by (metis sublist_appendI append_Nil)
      ultimately show ?thesis by simp
    next
      assume "t \<in> set (matchAll (tl ?rest))"
      then have "is_tag t \<and> sublist t (tl ?rest)"
        using "2.IH"(1) [OF refl refl True] by simp
      moreover have "sublist (tl ?rest) (c # cs)"
        using whole by (metis sublist_appendI append_Nil2)
      ultimately show ?thesis using sublist_order.order_trans by blast
    qed
  next
    case False
    with "2.prems" have "t \<in> set (matchAll cs)" by (auto simp: Let_def)
    then have "is_tag t \<and> sublist t cs" using "2.IH"(2) [OF refl refl False] by simp
    then show ?thesis by (simp add: sublist_Cons_right)
  qed
qed

section \<open>Replacing a pattern by text that shares no code unit with it\<close>

lemma prefix_disjoint_append:
  assumes "rep \<noteq> []" and "set u \<inter> set rep = {}" and "prefix u (rep @ xs)"
  shows "u = []"
proof (cases u)
  case Nil
  then show ?thesis .
next
  case (Cons x u')
  from assms(1) obtain r rep' where rep: "rep = r # rep'" by (cases rep) auto
  with Cons assms(3) have "x = r" by simp
  with Cons rep assms(2) show ?thesis by auto
qed

lemma sublist_disjoint_append:
  assumes "u \<noteq> []" and "set u \<inter> set a = {}"
  shows "sublist u (a @ xs) \<Longrightarrow> sublist u xs"
  using assms(2)
proof (induction a)
  case Nil
  then show ?case by simp
next
  case (Cons x a)
  from Cons.prems(1) have "prefix u (x # a @ xs) \<or> sublist u (a @ xs)"
    by (simp add: sublist_Cons_right)
  then show ?case
  proof
    assume "prefix u (x # a @ xs)"
    then have "prefix u ((x # a) @ xs)" by simp
    with Cons.prems(2) have "u = []"
      using prefix_disjoint_append [of "x # a" u xs] by blast
    with assms(1) show ?thesis by simp
  next
    assume "sublist u (a @ xs)"
    with Cons show ?thesis by auto
  qed
qed

lemma prefix_replaceAll:
  "pat \<noteq> [] \<Longrightarrow> rep \<noteq> [] \<Longrightarrow> set u \<inter> set rep = {} \<Longrightarrow>
     prefix u (replaceAll s pat rep) \<Longrightarrow> prefix u s"
proof (induction s pat rep arbitrary: u rule: replaceAll.induct)
  case (1 pat rep)
  then show ?case by simp
next
  case (2 c cs pat rep)
  show ?case
  proof (cases "prefix pat (c # cs)")
    case True
    with "2.prems" have "prefix u (rep @ replaceAll (drop (length pat) (c # cs)) pat rep)"
      by simp
    with "2.prems" have "u = []" using prefix_disjoint_append by blast
    then show ?thesis by simp
  next
    case False
    with "2.prems" have p: "prefix u (c # replaceAll cs pat rep)" by simp
    show ?thesis
    proof (cases u)
      case Nil
      then show ?thesis by simp
    next
      case (Cons x u')
      with p have x: "x = c" and "prefix u' (replaceAll cs pat rep)" by simp_all
      moreover from Cons "2.prems" have "set u' \<inter> set rep = {}" by auto
      ultimately have "prefix u' cs"
        using "2.IH"(3) [OF "2.prems"(1) False "2.prems"(1,2)] by blast
      with Cons x show ?thesis by simp
    qed
  qed
qed

lemma sublist_replaceAll:
  "pat \<noteq> [] \<Longrightarrow> rep \<noteq> [] \<Longrightarrow> set u \<inter> set rep = {} \<Longrightarrow>
     sublist u (replaceAll s pat rep) \<Longrightarrow> sublist u s"
proof (induction s pat rep rule: replaceAll.induct)
  case (1 pat rep)
  then show ?case by simp
next
  case (2 c cs pat rep)
  show ?case
  proof (cases "u = []")
    case True
    then show ?thesis by simp
  next
    case u: False
    show ?thesis
    proof (cases "prefix pat (c # cs)")
      case True
      with "2.prems" have "sublist u (rep @ replaceAll (drop (length pat) (c # cs)) pat rep)"
        by simp
      with u "2.prems"(3) have "sublist u (replaceAll (drop (length pat) (c # cs)) pat rep)"
        using sublist_disjoint_append by blast
      then have "sublist u (drop (length pat) (c # cs))"
        using "2.IH"(2) [OF "2.prems"(1) True "2.prems"(1,2,3)] by blast
      then show ?thesis
        using sublist_drop sublist_order.order_trans by blast
    next
      case False
      with "2.prems" have s: "sublist u (c # replaceAll cs pat rep)"
        and eq: "replaceAll (c # cs) pat rep = c # replaceAll cs pat rep" by simp_all
      from s have "prefix u (c # replaceAll cs pat rep) \<or> sublist u (replaceAll cs pat rep)"
        by (simp add: sublist_Cons_right)
      then show ?thesis
      proof
        assume "prefix u (c # replaceAll cs pat rep)"
        then have "prefix u (replaceAll (c # cs) pat rep)" using eq by simp
        then have "prefix u (c # cs)" using prefix_replaceAll "2.prems"(1,2,3) by blast
        then show ?thesis by blast
      next
        assume "sublist u (replaceAll cs pat rep)"
        then have "sublist u cs"
          using "2.IH"(3) [OF "2.prems"(1) False "2.prems"(1,2,3)] by blast
        then show ?thesis by (simp add: sublist_Cons_right)
      qed
    qed
  qed
qed

lemma replaceAll_removes:
  "pat \<noteq> [] \<Longrightarrow> rep \<noteq> [] \<Longrightarrow> set pat \<inter> set rep = {} \<Longrightarrow>
     \<not> sublist pat (replaceAll s pat rep)"
proof (induction s pat rep rule: replaceAll.induct)
  case (1 pat rep)
  then show ?case by simp
next
  case (2 c cs pat rep)
  show ?case
  proof (cases "prefix pat (c # cs)")
    case True
    have "\<not> sublist pat (replaceAll (drop (length pat) (c # cs)) pat rep)"
      using "2.IH"(2) [OF "2.prems"(1) True "2.prems"(1,2,3)] .
    then have "\<not> sublist pat (rep @ replaceAll (drop (length pat) (c # cs)) pat rep)"
      using sublist_disjoint_append "2.prems"(1,3) by blast
    with True "2.prems"(1) show ?thesis by simp
  next
    case False
    with "2.prems" have eq: "replaceAll (c # cs) pat rep = c # replaceAll cs pat rep" by simp
    have a: "\<not> sublist pat (replaceAll cs pat rep)"
      using "2.IH"(3) [OF "2.prems"(1) False "2.prems"(1,2,3)] .
    have "\<not> prefix pat (replaceAll (c # cs) pat rep)"
      using prefix_replaceAll "2.prems" False by blast
    with a eq show ?thesis by (simp add: sublist_Cons_right)
  qed
qed

lemma replaceAll_skip:
  "pat \<noteq> [] \<Longrightarrow> set a \<inter> set pat = {} \<Longrightarrow>
     replaceAll (a @ xs) pat rep = a @ replaceAll xs pat rep"
proof (induction a)
  case Nil
  then show ?case by simp
next
  case (Cons x a)
  from Cons.prems obtain p pat' where pat: "pat = p # pat'" by (cases pat) auto
  with Cons.prems have "p \<noteq> x" by auto
  with pat have "\<not> prefix pat (x # a @ xs)" by simp
  with Cons show ?case by simp
qed


section \<open>The loop over the matches\<close>

lemma tag_emoji_disjoint:
  assumes "lookup t = Some d" and "\<forall>c \<in> set u. tagAlphabet c"
  shows "set u \<inter> set (emoji d) = {}"
  using lookup_emoji(2) [OF assms(1)] assms(2) by auto

lemma enrichStep_None: "lookup t = None \<Longrightarrow> enrichStep t acc = acc"
  by (simp add: enrichStep_def)

lemma enrichStep_Some:
  "lookup t = Some d \<Longrightarrow>
     enrichStep t acc =
       (replaceAll (fst acc) t (emoji d), if falsy (snd acc) then eventType d else snd acc)"
  by (simp add: enrichStep_def)

lemma sublist_enrichStep:
  assumes "is_tag t" and "\<forall>c \<in> set u. tagAlphabet c"
    and "sublist u (fst (enrichStep t acc))"
  shows "sublist u (fst acc)"
proof (cases "lookup t")
  case None
  with assms(3) show ?thesis by (simp add: enrichStep_def)
next
  case (Some d)
  with assms(3) have "sublist u (replaceAll (fst acc) t (emoji d))"
    by (simp add: enrichStep_def)
  moreover have "t \<noteq> []" using assms(1) is_tag_alphabet by blast
  moreover have "emoji d \<noteq> []" using Some lookup_emoji(1) by blast
  moreover have "set u \<inter> set (emoji d) = {}" using Some assms(2) tag_emoji_disjoint by blast
  ultimately show ?thesis using sublist_replaceAll by blast
qed

lemma sublist_fold_enrichStep:
  "\<forall>t \<in> set ts. is_tag t \<Longrightarrow> \<forall>c \<in> set u. tagAlphabet c \<Longrightarrow>
     sublist u (fst (fold enrichStep ts acc)) \<Longrightarrow> sublist u (fst acc)"
proof (induction ts arbitrary: acc)
  case Nil
  then show ?case by simp
next
  case (Cons x ts)
  from Cons.prems have "sublist u (fst (fold enrichStep ts (enrichStep x acc)))" by simp
  with Cons have "sublist u (fst (enrichStep x acc))" by simp
  with Cons.prems show ?case using sublist_enrichStep [of x u acc] by simp
qed

lemma fold_enrichStep_removes:
  "\<forall>t \<in> set ts. is_tag t \<Longrightarrow> t \<in> set ts \<Longrightarrow> lookup t = Some d \<Longrightarrow>
     \<not> sublist t (fst (fold enrichStep ts acc))"
proof (induction ts arbitrary: acc)
  case Nil
  then show ?case by simp
next
  case (Cons x ts)
  show ?case
  proof (cases "t = x")
    case True
    have tag: "is_tag t" using Cons.prems(1,2) by blast
    then have alpha: "t \<noteq> []" "\<forall>c \<in> set t. tagAlphabet c" using is_tag_alphabet by blast+
    have "fst (enrichStep t acc) = replaceAll (fst acc) t (emoji d)"
      using Cons.prems(3) by (simp add: enrichStep_def)
    moreover have "\<not> sublist t (replaceAll (fst acc) t (emoji d))"
      using replaceAll_removes alpha lookup_emoji(1) [OF Cons.prems(3)]
        tag_emoji_disjoint [OF Cons.prems(3) alpha(2)] by blast
    ultimately have "\<not> sublist t (fst (enrichStep x acc))" using True by simp
    then have "\<not> sublist t (fst (fold enrichStep ts (enrichStep x acc)))"
      using sublist_fold_enrichStep [of ts t "enrichStep x acc"] Cons.prems(1) alpha(2) by auto
    then show ?thesis by simp
  next
    case False
    with Cons.prems have "t \<in> set ts" by simp
    with Cons show ?thesis by simp
  qed
qed

lemma snd_fold_enrichStep_set:
  "\<not> falsy ty \<Longrightarrow> snd (fold enrichStep ts (s, ty)) = ty"
proof (induction ts arbitrary: s)
  case Nil
  then show ?case by simp
next
  case (Cons x ts)
  then show ?case
    by (cases "lookup x") (simp_all add: enrichStep_None enrichStep_Some)
qed

lemma snd_fold_enrichStep:
  "snd (fold enrichStep ts (s, None)) =
     (case filter (\<lambda>t. categoryOf t \<noteq> None) ts of [] \<Rightarrow> None | t # rest \<Rightarrow> categoryOf t)"
proof (induction ts arbitrary: s)
  case Nil
  then show ?case by simp
next
  case (Cons x ts)
  show ?case
  proof (cases "lookup x")
    case None
    then show ?thesis using Cons by (simp add: enrichStep_None categoryOf_def)
  next
    case (Some d)
    show ?thesis
    proof (cases "eventType d")
      case None
      with Some show ?thesis using Cons by (simp add: enrichStep_Some categoryOf_def falsy_def)
    next
      case (Some c)
      with \<open>lookup x = Some d\<close> have "\<not> falsy (eventType d)"
        using lookup_eventType [of x d] by simp
      with Some \<open>lookup x = Some d\<close> show ?thesis
        using snd_fold_enrichStep_set [of "eventType d" ts]
        by (simp add: enrichStep_Some categoryOf_def falsy_def)
    qed
  qed
qed

section \<open>Only tags are replaced\<close>

lemma tagsReplaced_Cons_cases:
  assumes "tagsReplaced s (x # s')"
  obtains (kept) s0 where "s = x # s0" and "tagsReplaced s0 s'"
  | (swapped) t d s0 s0' where "s = t @ s0" and "x # s' = emoji d @ s0'"
      and "lookup t = Some d" and "tagsReplaced s0 s0'"
  using assms by (cases rule: tagsReplaced.cases) auto

lemma tagsReplaced_refl: "tagsReplaced s s"
  by (induction s) (auto intro: tagsReplaced.intros)

text \<open>The relation changes nothing in a string where no key of the table occurs.\<close>

lemma tagsReplaced_no_keys:
  "tagsReplaced s s' \<Longrightarrow> \<forall>t. lookup t \<noteq> None \<longrightarrow> \<not> sublist t s \<Longrightarrow> s' = s"
proof (induction rule: tagsReplaced.induct)
  case nothing
  then show ?case by simp
next
  case (keep s s' c)
  then have "\<forall>t. lookup t \<noteq> None \<longrightarrow> \<not> sublist t s"
    by (simp add: sublist_Cons_right)
  with keep show ?case by simp
next
  case (swap t data s s')
  then have "\<not> sublist t (t @ s)" by auto
  then show ?case by simp
qed

lemma tagsReplaced_prefix:
  "tagsReplaced s s' \<Longrightarrow> prefix u s' \<Longrightarrow> \<forall>c \<in> set u. tagAlphabet c \<Longrightarrow>
     \<exists>s0 s0'. s = u @ s0 \<and> s' = u @ s0' \<and> tagsReplaced s0 s0'"
proof (induction u arbitrary: s s')
  case Nil
  then show ?case by simp
next
  case (Cons x u)
  from Cons.prems(2) obtain s1' where s': "s' = x # s1'" and pre: "prefix u s1'"
    by (cases s') auto
  from Cons.prems(1) s' have "tagsReplaced s (x # s1')" by simp
  then show ?case
  proof (cases rule: tagsReplaced_Cons_cases)
    case (kept s1)
    moreover from Cons.prems(3) have "\<forall>c \<in> set u. tagAlphabet c" by simp
    ultimately obtain s0 s0'
      where "s1 = u @ s0" "s1' = u @ s0'" "tagsReplaced s0 s0'"
      using Cons.IH [of s1 s1'] pre by blast
    with kept s' show ?thesis by simp
  next
    case (swapped t d s0 s0')
    then have "emoji d \<noteq> []" using lookup_emoji(1) by blast
    with swapped have "x \<in> set (emoji d)" by (cases "emoji d") auto
    with swapped have "\<not> tagAlphabet x" using lookup_emoji(2) by blast
    with Cons.prems(3) show ?thesis by simp
  qed
qed

lemma tagsReplaced_replaceAll:
  assumes "lookup t = Some d" and "is_tag t"
  shows "tagsReplaced s s' \<Longrightarrow> tagsReplaced s (replaceAll s' t (emoji d))"
proof (induction "length s'" arbitrary: s s' rule: less_induct)
  case less
  have t: "t \<noteq> []" and alpha: "\<forall>c \<in> set t. tagAlphabet c"
    using assms(2) is_tag_alphabet by blast+
  show ?case
  proof (cases s')
    case Nil
    with less.prems t show ?thesis by simp
  next
    case (Cons c cs)
    show ?thesis
    proof (cases "prefix t s'")
      case True
      with less.prems alpha obtain s0 s0'
        where s: "s = t @ s0" and s': "s' = t @ s0'" and r: "tagsReplaced s0 s0'"
        using tagsReplaced_prefix by blast
      from s' t have "length s0' < length s'" by simp
      with r have "tagsReplaced s0 (replaceAll s0' t (emoji d))" using less.hyps by blast
      then have "tagsReplaced (t @ s0) (emoji d @ replaceAll s0' t (emoji d))"
        using assms(1) tagsReplaced.swap by blast
      moreover have "drop (length t) s' = s0'" using s' by simp
      then have "replaceAll s' t (emoji d) = emoji d @ replaceAll s0' t (emoji d)"
        using True t Cons by auto
      ultimately show ?thesis using s by simp
    next
      case False
      with t Cons have eq: "replaceAll s' t (emoji d) = c # replaceAll cs t (emoji d)" by simp
      from less.prems Cons have "tagsReplaced s (c # cs)" by simp
      then show ?thesis
      proof (cases rule: tagsReplaced_Cons_cases)
        case (kept s1)
        with Cons have "tagsReplaced s1 (replaceAll cs t (emoji d))" using less.hyps by simp
        with kept eq show ?thesis using tagsReplaced.keep by simp
      next
        case (swapped t' d' s0 s0')
        have e: "emoji d' \<noteq> []" using swapped lookup_emoji(1) by blast
        have "set (emoji d') \<inter> set t = {}"
          using tag_emoji_disjoint [OF swapped(3) alpha] by blast
        then have "replaceAll (emoji d' @ s0') t (emoji d) = emoji d' @ replaceAll s0' t (emoji d)"
          using replaceAll_skip t by blast
        moreover have "length s0' < length s'"
        proof -
          have "length s' = length (emoji d') + length s0'" using swapped(2) Cons by simp
          with e show ?thesis by simp
        qed
        then have "tagsReplaced s0 (replaceAll s0' t (emoji d))"
          using swapped less.hyps by blast
        then have "tagsReplaced (t' @ s0) (emoji d' @ replaceAll s0' t (emoji d))"
          using swapped tagsReplaced.swap by blast
        ultimately show ?thesis using swapped Cons by simp
      qed
    qed
  qed
qed

lemma tagsReplaced_fold:
  "\<forall>t \<in> set ts. is_tag t \<Longrightarrow> tagsReplaced s (fst acc) \<Longrightarrow>
     tagsReplaced s (fst (fold enrichStep ts acc))"
proof (induction ts arbitrary: acc)
  case Nil
  then show ?case by simp
next
  case (Cons x ts)
  have "tagsReplaced s (fst (enrichStep x acc))"
  proof (cases "lookup x")
    case None
    with Cons.prems show ?thesis by (simp add: enrichStep_def)
  next
    case (Some d)
    with Cons.prems show ?thesis
      using tagsReplaced_replaceAll [of x d s "fst acc"] by (simp add: enrichStep_def)
  qed
  with Cons show ?case by simp
qed

section \<open>The new title and the tags\<close>

lemma matchAll_nonempty: "matchAll s \<noteq> [] \<Longrightarrow> \<exists>t. is_tag t \<and> includes_str s t"
proof -
  assume "matchAll s \<noteq> []"
  then obtain t where "t \<in> set (matchAll s)" by (cases "matchAll s") auto
  then show ?thesis using matchAll_tags includes_str_sublist by blast
qed

lemma enrich_fst_removes:
  assumes "t \<in> set (matchAll title)" and "lookup t = Some d"
  shows "\<not> includes_str (fst (enrich title)) t"
proof -
  have "\<forall>u \<in> set (matchAll title). is_tag u" using matchAll_tags by blast
  then show ?thesis
    using fold_enrichStep_removes assms by (simp add: enrich_def includes_str_sublist)
qed

lemma enrich_fst_sublist:
  assumes "is_tag u" and "includes_str (fst (enrich title)) u"
  shows "includes_str title u"
proof -
  have "\<forall>t \<in> set (matchAll title). is_tag t" using matchAll_tags by blast
  moreover have "\<forall>c \<in> set u. tagAlphabet c" using assms(1) is_tag_alphabet by blast
  ultimately show ?thesis
    using sublist_fold_enrichStep [of "matchAll title" u "(title, None)"] assms(2)
    by (simp add: enrich_def includes_str_sublist)
qed

lemma enrich_fst_tagsReplaced: "tagsReplaced title (fst (enrich title))"
proof -
  have "\<forall>u \<in> set (matchAll title). is_tag u" using matchAll_tags by blast
  then show ?thesis
    using tagsReplaced_fold [of "matchAll title" title "(title, None)"] tagsReplaced_refl
    by (simp add: enrich_def)
qed

lemma enrich_twoTypes:
  "enrich twoTypesTitle =
     ([0xD83C, 0xDFC3, 0x200D, 0x2642, 0xFE0F] @ js '' then '' @ [0xD83D, 0xDCAA], Some (js ''RUN''))"
  by (simp add: twoTypesTitle_def enrich_simps js_simps)

lemma lookup_keys: "lookup t \<noteq> None \<longleftrightarrow> t \<in> set (map fst titleEnrichmentsAndTypes)"
  by (simp add: lookup_def map_of_eq_None_iff)

lemma plainTitle_no_tags: "list_all (\<lambda>t. \<not> is_tag t) (sublists plainTitle)"
  by (simp add: plainTitle_def js_simps is_tag_def)

lemma matchAll_morning: "matchAll morningTitle = [js '':run:'', js '':check:'']"
  by (simp add: morningTitle_def js_simps)

lemma lookup_check: "lookup (js '':check:'') = Some \<lparr>emoji = [0x2705], eventType = None\<rparr>"
  by (simp add: enrich_simps js_simps)

lemma morning_scanned:
  "list_all (\<lambda>t. \<not> includes_str morningTitle t \<or> t \<in> set (matchAll morningTitle))
     (map fst titleEnrichmentsAndTypes)"
  by (simp add: matchAll_morning) (simp add: morningTitle_def titleEnrichmentsAndTypes_def js_simps)

lemma twoTypes_filter:
  "filter (\<lambda>t. categoryOf t \<noteq> None) (matchAll twoTypesTitle) = [js '':run:'', js '':gym:'']"
  by (simp add: twoTypesTitle_def categoryOf_def enrich_simps js_simps)

section \<open>The colour of an event type\<close>

text \<open>
  C2, as the claim states it, fails: for the category \<open>null\<close> the operation does not
  complete without error, \<open>_processEventByType\<close> throws \<open>EventTypeNull\<close>.
\<close>

theorem processEventByType_null_category:
  "(processEventByType (Some sampleEvent) None :: unit error + CalendarEvent \<times> writeCall list)
     = Inl EventTypeNull \<and>
   (processEventByType (Some sampleEvent) None :: unit error + CalendarEvent \<times> writeCall list)
     \<noteq> Inr (sampleEvent, [])"
  by (simp add: processEventByType_def falsy_def)

text \<open>
  C2, amended: on an event that is present, each of the six event types RUN, BIKE,
  BIRTHDAY, DINNER, HEALTH, GYM sets its fixed colour (gray, gray, yellow, blue, red,
  pale red); every other non-empty event type has no colour, and the operation completes
  with no write and no error; for the event type \<open>null\<close> the switch alone has no colour
  either, but the operation does not reach it: \<open>null\<close>, like the empty string, throws
  \<open>EventTypeNull\<close>.
\<close>

theorem processEventByType_color:
  "processEventByType (Some ev) (Some (js ''RUN'')) = Inr (ev\<lparr>eventColor := Some GRAY\<rparr>, [SetColor GRAY]) \<and>
   processEventByType (Some ev) (Some (js ''BIKE'')) = Inr (ev\<lparr>eventColor := Some GRAY\<rparr>, [SetColor GRAY]) \<and>
   processEventByType (Some ev) (Some (js ''BIRTHDAY'')) = Inr (ev\<lparr>eventColor := Some YELLOW\<rparr>, [SetColor YELLOW]) \<and>
   processEventByType (Some ev) (Some (js ''DINNER'')) = Inr (ev\<lparr>eventColor := Some BLUE\<rparr>, [SetColor BLUE]) \<and>
   processEventByType (Some ev) (Some (js ''HEALTH'')) = Inr (ev\<lparr>eventColor := Some RED\<rparr>, [SetColor RED]) \<and>
   processEventByType (Some ev) (Some (js ''GYM'')) = Inr (ev\<lparr>eventColor := Some PALE_RED\<rparr>, [SetColor PALE_RED]) \<and>
   (c \<notin> {js ''RUN'', js ''BIKE'', js ''BIRTHDAY'', js ''DINNER'', js ''HEALTH'', js ''GYM''} \<and> c \<noteq> []
      \<longrightarrow> colorFor (Some c) = None \<and> processEventByType (Some ev) (Some c) = Inr (ev, [])) \<and>
   colorFor None = None \<and>
   processEventByType (Some ev) None = Inl EventTypeNull \<and>
   processEventByType (Some ev) (Some []) = Inl EventTypeNull"
  by (simp add: processEventByType_def falsy_def colorFor_def setColor_def js_def)

theorem processEventByType_color_witness:
  "js ''FOO'' \<notin> {js ''RUN'', js ''BIKE'', js ''BIRTHDAY'', js ''DINNER'', js ''HEALTH'', js ''GYM''} \<and>
   js ''FOO'' \<noteq> [] \<and>
   colorFor (Some (js ''FOO'')) = None \<and>
   (processEventByType (Some sampleEvent) (Some (js ''FOO'')) :: unit error + CalendarEvent \<times> writeCall list)
     = Inr (sampleEvent, []) \<and>
   (processEventByType (Some sampleEvent) (Some (js ''GYM'')) :: unit error + CalendarEvent \<times> writeCall list)
     = Inr (sampleEvent\<lparr>eventColor := Some PALE_RED\<rparr>, [SetColor PALE_RED])"
proof -
  have h: "js ''FOO'' \<notin> {js ''RUN'', js ''BIKE'', js ''BIRTHDAY'', js ''DINNER'', js ''HEALTH'', js ''GYM''}
      \<and> js ''FOO'' \<noteq> []"
    by (simp add: js_def)
  show ?thesis
    using h processEventByType_color [of sampleEvent "js ''FOO''", where ?'a = unit] by blast
qed

section \<open>The two guards of \<open>_processEventByType\<close>\<close>

text \<open>
  C10, as the claim states it, fails in its "exactly when": with the event present and
  the event type the empty string, which is neither \<open>null\<close> nor absent,
  \<open>EventTypeNull\<close> is thrown, since \<open>!(eventType)\<close> holds of every falsy value.
\<close>

theorem processEventByType_empty_type:
  "\<not> ((processEventByType (Some sampleEvent) (Some []) :: unit error + CalendarEvent \<times> writeCall list)
        = Inl EventTypeNull
      \<longleftrightarrow> Some sampleEvent \<noteq> None \<and> (Some [] :: jsstring option) = None)"
  by (simp add: processEventByType_def falsy_def)

text \<open>
  C10, amended: the check of the event comes first, so without an event \<open>EventNull\<close> is
  thrown whatever the event type is, also when it is \<open>null\<close>; and \<open>EventTypeNull\<close> is
  thrown exactly when the event is present and the event type is falsy, that is \<open>null\<close>,
  absent or the empty string.
\<close>

theorem processEventByType_errors:
  "(processEventByType None evType :: 'x error + CalendarEvent \<times> writeCall list) = Inl EventNull \<and>
   ((processEventByType event evType :: 'x error + CalendarEvent \<times> writeCall list) = Inl EventTypeNull
      \<longleftrightarrow> event \<noteq> None \<and> falsy evType)"
  by (auto simp: processEventByType_def split: option.splits)

theorem processEventByType_errors_witness:
  "(processEventByType None None :: unit error + CalendarEvent \<times> writeCall list) = Inl EventNull \<and>
   (processEventByType (Some sampleEvent) None :: unit error + CalendarEvent \<times> writeCall list)
     = Inl EventTypeNull \<and>
   (processEventByType (Some sampleEvent) (Some (js ''RUN'')) :: unit error + CalendarEvent \<times> writeCall list)
     \<noteq> Inl EventTypeNull"
  using processEventByType_errors [where ?'x = unit and evType = None and event = "Some sampleEvent"]
    processEventByType_errors [where ?'x = unit and evType = "Some (js ''RUN'')" and event = "Some sampleEvent"]
  by (simp add: falsy_def js_def)

section \<open>The resolver\<close>

text \<open>
  C5: \<open>_getLastEditedEvent\<close> fails with \<open>NoEventFound\<close> exactly when the listing
  answers and its result set is empty (\<open>items\<close> missing or of length 0) or the last
  slot of \<open>items\<close> is \<open>null\<close>; in every other outcome of the listing, a failure of
  the listing service included, it does not raise \<open>NoEventFound\<close>.
\<close>

theorem getLastEditedEvent_NoEventFound:
  "getLastEditedEvent svc now calId = Inl NoEventFound \<longleftrightarrow>
     (case Calendar_Events_list svc calId (options now) of
        Inl x \<Rightarrow> False
      | Inr events \<Rightarrow>
          (case items events of None \<Rightarrow> True | Some its \<Rightarrow> its = [] \<or> last its = None))"
  by (simp add: getLastEditedEvent_def lastItem_def split: sum.splits option.splits)

theorem getLastEditedEvent_NoEventFound_witness:
  "getLastEditedEvent (sampleServices None) 0 (js ''c'') = Inl NoEventFound \<and>
   getLastEditedEvent (sampleServices (Some [])) 0 (js ''c'') = Inl NoEventFound \<and>
   getLastEditedEvent (sampleServices (Some [Some \<lparr>itemId = js ''e1''\<rparr>, None])) 0 (js ''c'')
     = Inl NoEventFound \<and>
   getLastEditedEvent (sampleServices (Some sampleItems)) 0 (js ''c'') \<noteq> Inl NoEventFound"
  using getLastEditedEvent_NoEventFound [of "sampleServices None" 0 "js ''c''"]
    getLastEditedEvent_NoEventFound [of "sampleServices (Some [])" 0 "js ''c''"]
    getLastEditedEvent_NoEventFound
      [of "sampleServices (Some [Some \<lparr>itemId = js ''e1''\<rparr>, None])" 0 "js ''c''"]
    getLastEditedEvent_NoEventFound [of "sampleServices (Some sampleItems)" 0 "js ''c''"]
  by (simp add: sampleServices_def sampleItems_def)

text \<open>
  C6: when the listing answers with a non-empty \<open>items\<close> whose last slot is not
  \<open>null\<close>, \<open>_getLastEditedEvent\<close> returns what \<open>CalendarApp.getEventById\<close> fetches for
  the identifier of that last element (and fails as the fetch fails). The order of the
  slots is the listing's; the function takes the last one whatever the order is. With three
  events listed, the third one's record is returned (the witness).
\<close>

theorem getLastEditedEvent_last:
  assumes "Calendar_Events_list svc calId (options now) = Inr events"
    and "items events = Some its"
    and "its \<noteq> []"
    and "last its = Some item"
  shows "getLastEditedEvent svc now calId =
           (case CalendarApp_getEventById svc (itemId item) of
              Inl x \<Rightarrow> Inl (ServiceError x)
            | Inr record \<Rightarrow> Inr record)"
  using assms by (simp add: getLastEditedEvent_def lastItem_def)

theorem getLastEditedEvent_last_witness:
  "Calendar_Events_list (sampleServices (Some sampleItems)) (js ''c'') (options 0)
     = Inr \<lparr>items = Some sampleItems\<rparr> \<and>
   sampleItems \<noteq> [] \<and> length sampleItems = 3 \<and>
   last sampleItems = Some \<lparr>itemId = js ''e1''\<rparr> \<and>
   getLastEditedEvent (sampleServices (Some sampleItems)) 0 (js ''c'') = Inr (Some sampleEvent)"
proof -
  have 1: "Calendar_Events_list (sampleServices (Some sampleItems)) (js ''c'') (options 0)
      = Inr \<lparr>items = Some sampleItems\<rparr>"
    by (simp add: sampleServices_def)
  have 2: "items \<lparr>items = Some sampleItems\<rparr> = Some sampleItems" by simp
  have 3: "sampleItems \<noteq> []" by (simp add: sampleItems_def)
  have 4: "last sampleItems = Some \<lparr>itemId = js ''e1''\<rparr>" by (simp add: sampleItems_def)
  have 5: "length sampleItems = 3" by (simp add: sampleItems_def)
  show ?thesis
    using getLastEditedEvent_last [OF 1 2 3 4] 1 3 4 5 by (simp add: sampleServices_def)
qed

section \<open>The handler\<close>

text \<open>
  C7: when the resolved event's description contains \<open>:skip:\<close>, the handler returns
  normally and has made no write: neither \<open>setTitle\<close> nor \<open>setColor\<close> is called.
\<close>

theorem onCalendarUpdate_skip:
  assumes "getLastEditedEvent svc now (calendarId td) = Inr (Some event)"
    and "includes_str (eventDescription event) (js '':skip:'')"
  shows "onCalendarUpdate svc now td = (Inr (), [])"
  using assms by (simp add: onCalendarUpdate_def)

theorem onCalendarUpdate_skip_witness:
  "getLastEditedEvent (sampleServices (Some sampleItems)) 0 (calendarId sampleTrigger)
     = Inr (Some sampleEvent) \<and>
   includes_str (eventDescription sampleEvent) (js '':skip:'') \<and>
   onCalendarUpdate (sampleServices (Some sampleItems)) 0 sampleTrigger = (Inr (), [])"
  using onCalendarUpdate_skip [OF sample_resolved sample_skip] sample_resolved sample_skip
  by simp

section \<open>Writing the title back\<close>

text \<open>
  C9: \<open>_updateEventTitleAndGetType\<close> calls \<open>setTitle\<close>, once and with the new title,
  if and only if the new title differs from the original one, and makes no other write;
  when no match of the title is a key of the table, it makes no write and leaves the event
  as it is.
\<close>

theorem updateEventTitleAndGetType_writes:
  "snd (snd (updateEventTitleAndGetType event)) =
     (if fst (enrich (eventTitle event)) \<noteq> eventTitle event
      then [SetTitle (fst (enrich (eventTitle event)))] else []) \<and>
   ((\<forall>t \<in> set (matchAll (eventTitle event)). lookup t = None)
      \<longrightarrow> snd (updateEventTitleAndGetType event) = (event, []))"
  by (simp add: updateEventTitleAndGetType_def Let_def setTitle_def enrich_def
      fold_enrichStep_unknown)

theorem updateEventTitleAndGetType_writes_witness:
  "snd (snd (updateEventTitleAndGetType morningEvent)) =
     [SetTitle (js ''Morning '' @ [0xD83C, 0xDFC3, 0x200D, 0x2642, 0xFE0F] @ js '' '' @ [0x2705])] \<and>
   matchAll (eventTitle plainEvent) = [js '':bob:''] \<and> lookup (js '':bob:'') = None \<and>
   snd (updateEventTitleAndGetType plainEvent) = (plainEvent, [])"
proof -
  have h: "\<forall>t \<in> set (matchAll (eventTitle plainEvent)). lookup t = None"
    by (simp add: plainEvent_def matchAll_plain lookup_bob)
  have m: "eventTitle morningEvent = js ''Morning :run: :check:''"
    by (simp add: morningEvent_def)
  have d: "fst (enrich (js ''Morning :run: :check:'')) \<noteq> js ''Morning :run: :check:''"
    by (simp add: enrich_morning) (simp add: js_def)
  show ?thesis
    using updateEventTitleAndGetType_writes [of morningEvent]
      updateEventTitleAndGetType_writes [of plainEvent] h d
    by (simp add: m enrich_morning) (simp add: plainEvent_def matchAll_plain lookup_bob)
qed

section \<open>Titles without a match\<close>

text \<open>
  C8: a title with no substring that the pattern \<open>:[a-z$]+:\<close> matches comes back
  unchanged, with no event type.
\<close>

theorem enrich_no_tags:
  assumes "\<forall>t. includes_str title t \<longrightarrow> \<not> is_tag t"
  shows "enrich title = (title, None)"
proof -
  have "matchAll title = []" using assms matchAll_nonempty by blast
  then show ?thesis by (simp add: enrich_def)
qed

theorem enrich_no_tags_witness:
  "list_all (\<lambda>t. \<not> is_tag t) (sublists plainTitle) \<and> enrich plainTitle = (plainTitle, None)"
proof -
  have "\<forall>t \<in> set (sublists plainTitle). \<not> is_tag t"
    using plainTitle_no_tags by (simp only: list_all_iff)
  then have "\<forall>t. includes_str plainTitle t \<longrightarrow> \<not> is_tag t"
    by (simp add: includes_str_sublist)
  then show ?thesis using enrich_no_tags [of plainTitle] plainTitle_no_tags by simp
qed

section \<open>Replacing the tags\<close>

text \<open>
  C1, as the claim states it, fails: the title \<open>:a:run:\<close> contains the key \<open>:run:\<close>
  of the table, and comes back as it is. The only match of the pattern is \<open>:a:\<close>, which
  takes the colon that \<open>:run:\<close> starts with, so \<open>:run:\<close> is never looked up.
\<close>

theorem enrich_hidden_tag:
  "includes_str hiddenTitle (js '':run:'') \<and> lookup (js '':run:'') \<noteq> None \<and>
   fst (enrich hiddenTitle) = hiddenTitle"
  by (simp add: hiddenTitle_def enrich_simps js_simps)

text \<open>
  C1, amended: for every title and every key of the table that is among the matches of
  the pattern in the title, the new title contains no occurrence of that key, and the new
  title is the title with occurrences of keys of the table replaced by their emoji, every
  other code unit kept in place.
\<close>

theorem enrich_replaces:
  assumes "t \<in> set (matchAll title)" and "lookup t = Some d"
  shows "\<not> includes_str (fst (enrich title)) t \<and> tagsReplaced title (fst (enrich title))"
proof -
  have "\<forall>u \<in> set (matchAll title). is_tag u" using matchAll_tags by blast
  then have "tagsReplaced title (fst (enrich title))"
    using tagsReplaced_fold [of "matchAll title" title "(title, None)"] tagsReplaced_refl
    by (simp add: enrich_def)
  with assms show ?thesis using enrich_fst_removes by blast
qed

theorem enrich_replaces_witness:
  "js '':check:'' \<in> set (matchAll morningTitle) \<and>
   lookup (js '':check:'') = Some \<lparr>emoji = [0x2705], eventType = None\<rparr> \<and>
   \<not> includes_str (fst (enrich morningTitle)) (js '':check:'') \<and>
   tagsReplaced morningTitle (fst (enrich morningTitle))"
proof -
  have h: "js '':check:'' \<in> set (matchAll morningTitle)" by (simp add: matchAll_morning)
  show ?thesis using enrich_replaces [OF h lookup_check] h lookup_check by simp
qed

section \<open>Enriching twice\<close>

text \<open>
  C3, as the claim states it, fails: in \<open>:x:star:y:run: :star:\<close> the matches are
  \<open>:x:\<close>, \<open>:y:\<close> and the last \<open>:star:\<close>; replacing \<open>:star:\<close> everywhere also
  takes the occurrence between \<open>x\<close> and \<open>y\<close>, which leaves \<open>:run:\<close> free to be
  matched in a second pass, so the second pass changes the title again.
\<close>

theorem enrich_twice_differs:
  "fst (enrich revealedTitle) = js '':x'' @ [0x2B50] @ js ''y:run: '' @ [0x2B50] \<and>
   fst (enrich (fst (enrich revealedTitle))) =
     js '':x'' @ [0x2B50] @ js ''y'' @ [0xD83C, 0xDFC3, 0x200D, 0x2642, 0xFE0F] @ js '' '' @ [0x2B50] \<and>
   fst (enrich (fst (enrich revealedTitle))) \<noteq> fst (enrich revealedTitle)"
  by (simp add: revealedTitle_def enrich_simps js_simps)

text \<open>
  C3, amended: for every title in which each key of the table that occurs as a substring
  is also one of the matches of the pattern, enriching the new title again gives the same
  new title.
\<close>

theorem enrich_idempotent:
  assumes "\<forall>t. lookup t \<noteq> None \<and> includes_str title t \<longrightarrow> t \<in> set (matchAll title)"
  shows "fst (enrich (fst (enrich title))) = fst (enrich title)"
proof -
  let ?new = "fst (enrich title)"
  have "\<forall>t \<in> set (matchAll ?new). lookup t = None"
  proof (rule ballI, rule ccontr)
    fix t
    assume t: "t \<in> set (matchAll ?new)" and "lookup t \<noteq> None"
    then obtain d where d: "lookup t = Some d" by blast
    from t have "is_tag t" and "includes_str ?new t"
      using matchAll_tags includes_str_sublist by blast+
    then have "includes_str title t" using enrich_fst_sublist by blast
    with d assms have "t \<in> set (matchAll title)" by simp
    then have "\<not> includes_str ?new t" using d enrich_fst_removes by blast
    with \<open>includes_str ?new t\<close> show False by simp
  qed
  then show ?thesis by (simp add: enrich_def [of ?new] fold_enrichStep_unknown)
qed

theorem enrich_idempotent_witness:
  "list_all (\<lambda>t. \<not> includes_str morningTitle t \<or> t \<in> set (matchAll morningTitle))
     (map fst titleEnrichmentsAndTypes) \<and>
   fst (enrich (fst (enrich morningTitle))) = fst (enrich morningTitle)"
proof -
  have "\<forall>t \<in> set (map fst titleEnrichmentsAndTypes).
          \<not> includes_str morningTitle t \<or> t \<in> set (matchAll morningTitle)"
    using morning_scanned by (simp only: list_all_iff)
  then have "\<forall>t. lookup t \<noteq> None \<and> includes_str morningTitle t
      \<longrightarrow> t \<in> set (matchAll morningTitle)"
    using lookup_keys by blast
  then show ?thesis using enrich_idempotent [of morningTitle] morning_scanned by simp
qed

section \<open>The first event type wins\<close>

text \<open>
  C4, as the claim states it, fails in its last part: in \<open>:gym: :run:gym:\<close> the matches
  are \<open>:gym:\<close> and \<open>:run:\<close>, both with an event type; the event type is GYM, the
  first one's, but replacing \<open>:gym:\<close> everywhere also takes the occurrence that starts at
  the closing colon of \<open>:run:\<close>, so the later tag \<open>:run:\<close> is not replaced by its
  emoji: \<open>:run\<close> stays in the new title as text.
\<close>

theorem enrich_later_tag_lost:
  "filter (\<lambda>t. categoryOf t \<noteq> None) (matchAll brokenTitle) = [js '':gym:'', js '':run:''] \<and>
   enrich brokenTitle = ([0xD83D, 0xDCAA] @ js '' :run'' @ [0xD83D, 0xDCAA], Some (js ''GYM''))"
  by (simp add: brokenTitle_def categoryOf_def enrich_simps js_simps)

text \<open>
  C4, amended: when the matches of the pattern that have an event type in the table are
  \<open>t\<close> followed by \<open>rest\<close>, in the order of the scan, the event type returned is that
  of \<open>t\<close>, whatever the later ones are; the later ones are still replaced: no occurrence
  of a later one remains in the new title, and the new title is the title with occurrences
  of keys of the table replaced by their emoji, every other code unit kept in place.
\<close>

theorem enrich_category:
  assumes "filter (\<lambda>t. categoryOf t \<noteq> None) (matchAll title) = t # rest"
  shows "snd (enrich title) = categoryOf t \<and>
         (\<forall>u \<in> set rest. \<not> includes_str (fst (enrich title)) u) \<and>
         tagsReplaced title (fst (enrich title))"
proof -
  have "snd (enrich title) = categoryOf t"
    using assms by (simp add: enrich_def snd_fold_enrichStep)
  moreover have "\<not> includes_str (fst (enrich title)) u" if "u \<in> set rest" for u
  proof -
    from that assms have "u \<in> set (filter (\<lambda>t. categoryOf t \<noteq> None) (matchAll title))"
      by simp
    then have "u \<in> set (matchAll title)" and "categoryOf u \<noteq> None" by simp_all
    then show ?thesis
      using enrich_fst_removes by (auto simp: categoryOf_def split: option.splits)
  qed
  moreover have "tagsReplaced title (fst (enrich title))"
    by (rule enrich_fst_tagsReplaced)
  ultimately show ?thesis by blast
qed

theorem enrich_category_witness:
  "filter (\<lambda>t. categoryOf t \<noteq> None) (matchAll twoTypesTitle) = [js '':run:'', js '':gym:''] \<and>
   snd (enrich twoTypesTitle) = Some (js ''RUN'') \<and>
   \<not> includes_str (fst (enrich twoTypesTitle)) (js '':gym:'') \<and>
   tagsReplaced twoTypesTitle (fst (enrich twoTypesTitle)) \<and>
   fst (enrich twoTypesTitle) =
     [0xD83C, 0xDFC3, 0x200D, 0x2642, 0xFE0F] @ js '' then '' @ [0xD83D, 0xDCAA]"
proof -
  have "categoryOf (js '':run:'') = Some (js ''RUN'')"
    by (simp add: categoryOf_def enrich_simps js_simps)
  moreover have "fst (enrich twoTypesTitle) =
      [0xD83C, 0xDFC3, 0x200D, 0x2642, 0xFE0F] @ js '' then '' @ [0xD83D, 0xDCAA]"
    by (simp add: enrich_twoTypes)
  ultimately show ?thesis
    using enrich_category [OF twoTypes_filter] twoTypes_filter by simp
qed

end
